theory Spec2Isabelle
  imports Main
begin

section \<open>The tag documents and their collection\<close>

text \<open>
  Modelled from the spec: the document class \<^verbatim>\<open>Tag\<close> is imported from
  \<^verbatim>\<open>common.models\<close>, which is not among the sources. The record has the fields the
  handlers of \<^verbatim>\<open>exts/tags.py\<close> read and write (\<^verbatim>\<open>tag.id\<close>, \<^verbatim>\<open>tag.name\<close>,
  \<^verbatim>\<open>tag.author_id\<close>, \<^verbatim>\<open>tag.description\<close>, \<^verbatim>\<open>tag.created_at\<close>,
  \<^verbatim>\<open>tag.last_edited_at\<close>), which are the fields of the spec's entity. Object ids are
  natural numbers and timestamps are integers. A Python string is the list of the bytes
  of its UTF-8 encoding: equality and the substring test on strings are those of the byte
  lists, the number of characters is \<open>py_len\<close> below, and \<^verbatim>\<open>str.lower\<close>, which follows
  the Unicode tables, is a parameter of the one handler that calls it.
\<close>

type_synonym oid = nat
type_synonym datetime = int

record tag =
  tag_id :: oid
  name :: string
  author_id :: string
  description :: string
  created_at :: datetime
  last_edited_at :: "datetime option"

text \<open>
  The collection behind \<^verbatim>\<open>Tag\<close>: its documents in natural (insertion) order, and the
  next object id the store hands out on an insert.
\<close>

record store =
  docs :: "tag list"
  next_id :: oid

definition empty_store :: store where
  "empty_store = \<lparr>docs = [], next_id = 0\<rparr>"

text \<open>
  What a handler tells the user. An error is either a failure message the handler sends
  or an exception that leaves it:
  \<^item> \<open>AlreadyExists n\<close>: \<^verbatim>\<open>add_tag\<close> sends ``Tag n already exists'';
  \<^item> \<open>NotFound\<close>: \<^verbatim>\<open>edit_tag\<close> sends ``The original tag could not be found.'';
  \<^item> \<open>BadArgument n\<close>: \<^verbatim>\<open>view\<close>, \<^verbatim>\<open>info\<close>, \<^verbatim>\<open>edit\<close> and \<^verbatim>\<open>delete\<close> raise
    \<^verbatim>\<open>naff.errors.BadArgument\<close> with ``Tag n does not exist.'';
  \<^item> \<open>KeyError k\<close>: \<^verbatim>\<open>ctx.responses[k]\<close> on a form without the input \<open>k\<close>;
  \<^item> \<open>DuplicateKeyError\<close>: the database refuses a write that would give two documents
    the same name;
  \<^item> \<open>ValueError\<close>: \<^verbatim>\<open>naff.EmbedField\<close> refuses a value of more than 1024 characters;
  \<^item> \<open>IndexError\<close>: the paginator is sent without a page.
\<close>

datatype error =
    AlreadyExists string
  | NotFound
  | BadArgument string
  | KeyError string
  | DuplicateKeyError
  | ValueError
  | IndexError

text \<open>The spec's taxonomy has one kind, NotFound, for a missing lookup, edit or delete target.\<close>

fun is_not_found :: "error \<Rightarrow> bool" where
  "is_not_found NotFound = True"
| "is_not_found (BadArgument n) = True"
| "is_not_found (AlreadyExists n) = False"
| "is_not_found (KeyError k) = False"
| "is_not_found DuplicateKeyError = False"
| "is_not_found ValueError = False"
| "is_not_found IndexError = False"

subsection \<open>The document-mapper calls the handlers make\<close>

text \<open>\<^verbatim>\<open>Tag.find_one(Tag.name == tag_name)\<close>: the first document with that name.\<close>

definition Tag_find_one :: "string \<Rightarrow> store \<Rightarrow> tag option" where
  "Tag_find_one tag_name s = find (\<lambda>t. name t = tag_name) (docs s)"

text \<open>\<^verbatim>\<open>Tag.find_one(Tag.name == tag_name).exists()\<close>.\<close>

definition Tag_exists :: "string \<Rightarrow> store \<Rightarrow> bool" where
  "Tag_exists tag_name s = (Tag_find_one tag_name s \<noteq> None)"

text \<open>\<^verbatim>\<open>Tag.get(id)\<close>: the document with that object id.\<close>

definition Tag_get :: "oid \<Rightarrow> store \<Rightarrow> tag option" where
  "Tag_get i s = find (\<lambda>t. tag_id t = i) (docs s)"

text \<open>\<^verbatim>\<open>Tag.find_all()\<close> and \<^verbatim>\<open>Tag.find_all(limit=25)\<close>.\<close>

definition Tag_find_all :: "store \<Rightarrow> tag list" where
  "Tag_find_all s = docs s"


text \<open>
  Modelled from the spec: the uniqueness constraint on \<^verbatim>\<open>name\<close>. Its declaration belongs
  to the class \<^verbatim>\<open>Tag\<close> of \<^verbatim>\<open>common.models\<close>, which is not among the sources; the spec
  gives it to the database (``\<open>name\<close> is unique among existing tags'', ``what the storage
  engine provides for uniqueness enforcement on \<open>name\<close>'', ``a document database
  (provides the actual persistence, uniqueness constraint on \<open>name\<close>, and querying)'').
  A write that would leave two documents with the same name is refused with the
  database's duplicate-key error and changes nothing.

  \<^verbatim>\<open>Tag(name=..., author_id=..., description=..., created_at=...).insert()\<close>: the store
  gives the document a fresh object id; \<^verbatim>\<open>last_edited_at\<close> keeps its default, absent.
\<close>

definition Tag_insert ::
  "string \<Rightarrow> string \<Rightarrow> string \<Rightarrow> datetime \<Rightarrow> store \<Rightarrow> error + store" where
  "Tag_insert n a d c s =
     (if list_ex (\<lambda>u. name u = n) (docs s) then Inl DuplicateKeyError
      else Inr \<lparr>docs = docs s @ [\<lparr>tag_id = next_id s, name = n, author_id = a,
                                   description = d, created_at = c, last_edited_at = None\<rparr>],
                next_id = Suc (next_id s)\<rparr>)"

text \<open>
  \<^verbatim>\<open>tag.save()\<close> replaces the one stored document with the object id of \<^verbatim>\<open>tag\<close>, and
  inserts \<^verbatim>\<open>tag\<close> when there is none, unless a document with another object id has the
  name of \<^verbatim>\<open>tag\<close> (the constraint above); \<^verbatim>\<open>tag.delete()\<close> removes the one stored
  document with that object id.
\<close>

fun replace_one :: "tag \<Rightarrow> tag list \<Rightarrow> tag list" where
  "replace_one t [] = [t]"
| "replace_one t (u # us) = (if tag_id u = tag_id t then t # us else u # replace_one t us)"

fun delete_one :: "oid \<Rightarrow> tag list \<Rightarrow> tag list" where
  "delete_one i [] = []"
| "delete_one i (u # us) = (if tag_id u = i then us else u # delete_one i us)"

definition Tag_save :: "tag \<Rightarrow> store \<Rightarrow> error + store" where
  "Tag_save t s =
     (if list_ex (\<lambda>u. tag_id u \<noteq> tag_id t \<and> name u = name t) (docs s)
      then Inl DuplicateKeyError
      else Inr (s\<lparr>docs := replace_one t (docs s)\<rparr>))"

definition Tag_delete :: "tag \<Rightarrow> store \<Rightarrow> store" where
  "Tag_delete t s = s\<lparr>docs := delete_one (tag_id t) (docs s)\<rparr>"

section \<open>The handlers of the extension\<close>

text \<open>
  The success messages: the content of a tag (\<^verbatim>\<open>view\<close>), ``n now exists'' (\<^verbatim>\<open>add_tag\<close>),
  ``Tag n has been edited'' and ``Tag o has been edited and re-named to n'' (\<^verbatim>\<open>edit_tag\<close>),
  ``Tag n has been successfully deleted'' (\<^verbatim>\<open>delete\<close>).
\<close>

datatype reply =
    Content string
  | NowExists string
  | Edited string
  | EditedRenamed string string
  | Deleted string

text \<open>
  A submitted form: the dictionary \<^verbatim>\<open>ctx.responses\<close> from the custom ids of the inputs
  to the submitted texts, and \<^verbatim>\<open>str(ctx.author.id)\<close>.
\<close>

record modal_ctx =
  responses :: "string \<rightharpoonup> string"
  author :: string

text \<open>\<^verbatim>\<open>Tags.view\<close>.\<close>

definition view :: "string \<Rightarrow> store \<Rightarrow> error + reply" where
  "view tag_name s =
     (case Tag_find_one tag_name s of
        Some t \<Rightarrow> Inr (Content (description t))
      | None \<Rightarrow> Inl (BadArgument tag_name))"

text \<open>
  \<^verbatim>\<open>Tags.add_tag\<close>. The argument \<open>now\<close> is the value of \<^verbatim>\<open>datetime.datetime.now()\<close>.
  An exception of the insert leaves the handler before the success message.
\<close>

definition add_tag :: "datetime \<Rightarrow> modal_ctx \<Rightarrow> store \<Rightarrow> (error + reply) \<times> store" where
  "add_tag now ctx s =
     (case responses ctx ''tag_name'' of
        None \<Rightarrow> (Inl (KeyError ''tag_name''), s)
      | Some tag_name \<Rightarrow>
          if Tag_exists tag_name s then (Inl (AlreadyExists tag_name), s)
          else
            (case responses ctx ''tag_description'' of
               None \<Rightarrow> (Inl (KeyError ''tag_description''), s)
             | Some d \<Rightarrow>
                 (case Tag_insert tag_name (author ctx) d now s of
                    Inl e \<Rightarrow> (Inl e, s)
                  | Inr s' \<Rightarrow> (Inr (NowExists tag_name), s'))))"

text \<open>
  \<^verbatim>\<open>Tags.edit_tag\<close>. The form's custom id is \<^verbatim>\<open>astro_edit_tag_\<close> followed by the object
  id that \<^verbatim>\<open>Tags.edit\<close> wrote there; \<open>i\<close> is that object id,
  \<^verbatim>\<open>PydanticObjectId(tag_id)\<close>. An exception of the save leaves the handler before the
  success message.
\<close>

definition edit_tag :: "datetime \<Rightarrow> modal_ctx \<Rightarrow> oid \<Rightarrow> store \<Rightarrow> (error + reply) \<times> store" where
  "edit_tag now ctx i s =
     (case Tag_get i s of
        None \<Rightarrow> (Inl NotFound, s)
      | Some t \<Rightarrow>
          (case responses ctx ''tag_name'' of
             None \<Rightarrow> (Inl (KeyError ''tag_name''), s)
           | Some tag_name \<Rightarrow>
               (case responses ctx ''tag_description'' of
                  None \<Rightarrow> (Inl (KeyError ''tag_description''), s)
                | Some d \<Rightarrow>
                    (let original_name = name t;
                         t' = t\<lparr>name := tag_name, description := d,
                                last_edited_at := Some now\<rparr>
                     in case Tag_save t' s of
                          Inl e \<Rightarrow> (Inl e, s)
                        | Inr s' \<Rightarrow>
                            (Inr (if tag_name = original_name then Edited tag_name
                                  else EditedRenamed original_name tag_name),
                             s')))))"

text \<open>\<^verbatim>\<open>Tags.delete\<close>.\<close>

definition delete :: "string \<Rightarrow> store \<Rightarrow> (error + reply) \<times> store" where
  "delete tag_name s =
     (case Tag_find_one tag_name s of
        Some t \<Rightarrow> (Inr (Deleted tag_name), Tag_delete t s)
      | None \<Rightarrow> (Inl (BadArgument tag_name), s))"






text \<open>
  \<^verbatim>\<open>Tags.list\<close>. \<open>str_nat\<close> is \<^verbatim>\<open>str\<close> on a non-negative integer, \<open>join\<close> is
  \<^verbatim>\<open>sep.join\<close>, \<open>range_step\<close> is \<^verbatim>\<open>range(start, stop, step)\<close> for a positive step,
  \<open>slice xs a b\<close> is \<^verbatim>\<open>xs[a:b]\<close> for indices that are not negative, and \<open>py_len\<close> is
  \<^verbatim>\<open>len\<close> on a string: the number of its code points, which are the bytes of the UTF-8
  encoding that are not continuation bytes (\<open>0x80\<close> to \<open>0xBF\<close>).
\<close>

fun str_nat :: "nat \<Rightarrow> string" where
  "str_nat n =
     (if n < 10 then [''0123456789'' ! n]
      else str_nat (n div 10) @ [''0123456789'' ! (n mod 10)])"

declare str_nat.simps [simp del]

fun join :: "string \<Rightarrow> string list \<Rightarrow> string" where
  "join sep [] = []"
| "join sep [x] = x"
| "join sep (x # y # ys) = x @ sep @ join sep (y # ys)"

definition range_step :: "nat \<Rightarrow> nat \<Rightarrow> nat \<Rightarrow> nat list" where
  "range_step start stop step =
     map (\<lambda>k. start + k * step) [0 ..< (stop - start + step - 1) div step]"

definition slice :: "'a list \<Rightarrow> nat \<Rightarrow> nat \<Rightarrow> 'a list" where
  "slice xs a b = take (b - a) (drop a xs)"

definition continuation_byte :: "char \<Rightarrow> bool" where
  "continuation_byte c = (128 \<le> (of_char c :: nat) \<and> (of_char c :: nat) < 192)"

definition py_len :: "string \<Rightarrow> nat" where
  "py_len s = length (filter (\<lambda>c. \<not> continuation_byte c) s)"

text \<open>
  An embed with its title, description, colour and fields, each field a pair of a name and
  a value. \<^verbatim>\<open>naff.EmbedField(name=..., value=...)\<close> raises \<^verbatim>\<open>ValueError\<close> for a name of
  more than 256 or a value of more than 1024 characters.
\<close>

record embed =
  embed_title :: string
  embed_description :: string
  embed_color :: nat
  embed_fields :: "(string \<times> string) list"

definition EmbedField :: "string \<Rightarrow> string \<Rightarrow> error + string \<times> string" where
  "EmbedField n v =
     (if py_len n > 256 \<or> py_len v > 1024 then Inl ValueError else Inr (n, v))"

text \<open>
  The reply of \<^verbatim>\<open>list\<close>: the embeds sent as they are, or the paginator over them.
\<close>

datatype list_reply = Send "embed list" | Paginator "embed list"

fun embeds_of :: "list_reply \<Rightarrow> embed list" where
  "embeds_of (Send es) = es"
| "embeds_of (Paginator es) = es"

text \<open>The three comprehensions of \<^verbatim>\<open>Tags.list\<close>, in the order of the source.\<close>

definition list_tag_list :: "tag list \<Rightarrow> string list" where
  "list_tag_list all_tags =
     map (\<lambda>(i, t). ''` '' @ str_nat (i + 1) @ '' ` '' @ name t @ ''`'') (enumerate 0 all_tags)"

definition list_chunks :: "string list \<Rightarrow> string list list" where
  "list_chunks tag_list =
     map (\<lambda>x. slice tag_list x (x + 10)) (range_step 0 (length tag_list) 10)"

text \<open>
  The colour \<^verbatim>\<open>ASTRO_COLOR\<close> comes from \<^verbatim>\<open>common.const\<close>, which is not among the
  sources: it is a parameter. The comprehension stops at the first chunk whose field is
  refused.
\<close>

fun list_embeds :: "nat \<Rightarrow> string list list \<Rightarrow> error + embed list" where
  "list_embeds ASTRO_COLOR [] = Inr []"
| "list_embeds ASTRO_COLOR (c # chunks) =
     (case EmbedField ''Names'' (join [CHR 0x0A] c) of
        Inl e \<Rightarrow> Inl e
      | Inr f \<Rightarrow>
          (case list_embeds ASTRO_COLOR chunks of
             Inl e \<Rightarrow> Inl e
           | Inr embeds \<Rightarrow>
               Inr (\<lparr>embed_title = ''Tag List'',
                     embed_description = ''This is the list of currently existing tags.'',
                     embed_color = ASTRO_COLOR,
                     embed_fields = [f]\<rparr> # embeds)))"

text \<open>
  One embed is sent as it is. Otherwise the paginator is built over the embeds and sent;
  built over none, it has no page to send and \<^verbatim>\<open>pag.send\<close> raises \<^verbatim>\<open>IndexError\<close>.
  What the chat platform does with a message it is sent is outside this theory.
\<close>

definition list :: "nat \<Rightarrow> store \<Rightarrow> error + list_reply" where
  "list ASTRO_COLOR s =
     (let all_tags = Tag_find_all s;
          tag_list = list_tag_list all_tags;
          chunks = list_chunks tag_list
      in case list_embeds ASTRO_COLOR chunks of
           Inl e \<Rightarrow> Inl e
         | Inr embeds \<Rightarrow>
             if length embeds = 1 then Inr (Send embeds)
             else if embeds = [] then Inl IndexError
             else Inr (Paginator embeds))"

section \<open>Invariants of the collection\<close>

text \<open>
  The store hands out each object id once: the ids of the stored documents are distinct
  and below \<open>next_id\<close>.
\<close>

definition ids_fresh :: "store \<Rightarrow> bool" where
  "ids_fresh s =
     (distinct (map tag_id (docs s)) \<and> list_all (\<lambda>t. tag_id t < next_id s) (docs s))"

text \<open>The spec's invariant: no two stored tags have the same name.\<close>

definition names_unique :: "store \<Rightarrow> bool" where
  "names_unique s = distinct (map name (docs s))"

text \<open>
  The stores the handlers can produce: the empty collection, and what creating, editing
  and deleting make of such a store.
\<close>

inductive reachable :: "store \<Rightarrow> bool" where
  init: "reachable empty_store"
| created: "reachable s \<Longrightarrow> reachable (snd (add_tag now ctx s))"
| edited: "reachable s \<Longrightarrow> reachable (snd (edit_tag now ctx i s))"
| deleted: "reachable s \<Longrightarrow> reachable (snd (delete n s))"

section \<open>Forms and stores of the examples\<close>

text \<open>The form with both inputs filled in, submitted by the user 42.\<close>

definition form :: "string \<Rightarrow> string \<Rightarrow> modal_ctx" where
  "form n d = \<lparr>responses = [''tag_name'' \<mapsto> n, ''tag_description'' \<mapsto> d], author = ''42''\<rparr>"

text \<open>The store after the tags \<open>a\<close> and \<open>b\<close> have been created in an empty collection.\<close>

definition store_a_b :: store where
  "store_a_b = snd (add_tag 2 (form ''b'' ''y'') (snd (add_tag 1 (form ''a'' ''x'') empty_store)))"






section \<open>Facts about the lookups\<close>

lemma find_append_None: "find P xs = None \<Longrightarrow> find P (xs @ ys) = find P ys"
  by (induction xs) (auto split: if_splits)

lemma find_split:
  "find P xs = Some x \<Longrightarrow> \<exists>ys zs. xs = ys @ x # zs \<and> P x \<and> (\<forall>y \<in> set ys. \<not> P y)"
proof (induction xs)
  case Nil
  then show ?case by simp
next
  case (Cons a xs)
  show ?case
  proof (cases "P a")
    case True
    with Cons.prems have "a = x" by simp
    with True have "a # xs = [] @ x # xs \<and> P x \<and> (\<forall>y \<in> set []. \<not> P y)" by simp
    then show ?thesis by blast
  next
    case False
    with Cons.prems have "find P xs = Some x" by simp
    from Cons.IH [OF this] obtain ys zs where "xs = ys @ x # zs" "P x" "\<forall>y \<in> set ys. \<not> P y"
      by blast
    with False have "a # xs = (a # ys) @ x # zs \<and> P x \<and> (\<forall>y \<in> set (a # ys). \<not> P y)"
      by simp
    then show ?thesis by blast
  qed
qed

lemma find_split_mid:
  "\<forall>y \<in> set ys. \<not> P y \<Longrightarrow> P x \<Longrightarrow> find P (ys @ x # zs) = Some x"
  by (induction ys) auto

lemma Tag_exists_iff: "Tag_exists n s \<longleftrightarrow> n \<in> set (map name (docs s))"
  by (auto simp: Tag_exists_def Tag_find_one_def find_None_iff)

lemma Tag_find_one_None_iff: "Tag_find_one n s = None \<longleftrightarrow> n \<notin> set (map name (docs s))"
  by (auto simp: Tag_find_one_def find_None_iff)

lemma Tag_get_None_iff: "Tag_get i s = None \<longleftrightarrow> i \<notin> set (map tag_id (docs s))"
  by (auto simp: Tag_get_def find_None_iff)

lemma replace_one_split:
  "\<forall>y \<in> set ys. tag_id y \<noteq> tag_id t' \<Longrightarrow> tag_id x = tag_id t' \<Longrightarrow>
   replace_one t' (ys @ x # zs) = ys @ t' # zs"
  by (induction ys) auto

lemma delete_one_split:
  "\<forall>y \<in> set ys. tag_id y \<noteq> i \<Longrightarrow> tag_id x = i \<Longrightarrow> delete_one i (ys @ x # zs) = ys @ zs"
  by (induction ys) auto

lemma find_SomeD: "find P xs = Some x \<Longrightarrow> P x \<and> x \<in> set xs"
  by (induction xs) (auto split: if_splits)

lemma Tag_insert_new:
  "n \<notin> set (map name (docs s)) \<Longrightarrow>
   Tag_insert n a d c s =
     Inr \<lparr>docs = docs s @ [\<lparr>tag_id = next_id s, name = n, author_id = a, description = d,
                             created_at = c, last_edited_at = None\<rparr>],
          next_id = Suc (next_id s)\<rparr>"
  by (auto simp: Tag_insert_def list_ex_iff)

text \<open>The example stores, evaluated.\<close>

lemma responses_form:
  "responses (form n d) ''tag_name'' = Some n"
  "responses (form n d) ''tag_description'' = Some d"
  by (simp_all add: form_def)

lemma store_a_b_eval:
  "store_a_b =
     \<lparr>docs = [\<lparr>tag_id = 0, name = ''a'', author_id = ''42'', description = ''x'',
                created_at = 1, last_edited_at = None\<rparr>,
              \<lparr>tag_id = 1, name = ''b'', author_id = ''42'', description = ''y'',
                created_at = 2, last_edited_at = None\<rparr>],
      next_id = 2\<rparr>"
  by (simp add: store_a_b_def add_tag_def form_def Tag_exists_def Tag_find_one_def
      Tag_insert_def empty_store_def)


section \<open>Creating a tag\<close>

text \<open>
  C1. When a tag named \<open>n\<close> already exists, submitting the creation form with the name
  \<open>n\<close> fails with \<open>AlreadyExists\<close> and leaves the store as it was: no document is
  inserted.
\<close>

theorem add_tag_already_exists:
  assumes "responses ctx ''tag_name'' = Some n"
    and "n \<in> set (map name (docs s))"
  shows "add_tag now ctx s = (Inl (AlreadyExists n), s)"
proof -
  from assms(2) have "Tag_exists n s"
    by (simp add: Tag_exists_iff)
  with assms(1) show ?thesis
    by (simp add: add_tag_def)
qed

theorem add_tag_already_exists_witness:
  "responses (form ''a'' ''again'') ''tag_name'' = Some ''a'' \<and>
   ''a'' \<in> set (map name (docs store_a_b)) \<and>
   add_tag 7 (form ''a'' ''again'') store_a_b = (Inl (AlreadyExists ''a''), store_a_b)"
proof -
  have n: "responses (form ''a'' ''again'') ''tag_name'' = Some ''a''"
    by (simp add: responses_form)
  have e: "''a'' \<in> set (map name (docs store_a_b))"
    by (simp add: store_a_b_eval)
  from n e add_tag_already_exists [OF n e, of 7] show ?thesis
    by simp
qed

text \<open>
  C3. When no tag named \<open>n\<close> exists, submitting the creation form with the name \<open>n\<close> and
  the description \<open>d\<close> succeeds, and afterwards the lookup of \<open>n\<close> by exact name returns
  the tag that was created: its name is \<open>n\<close>, its description is \<open>d\<close>, its author is the
  submitter, and \<^verbatim>\<open>view\<close> shows \<open>d\<close>.
\<close>

theorem add_tag_then_find:
  assumes "n \<notin> set (map name (docs s))"
    and "responses ctx ''tag_name'' = Some n"
    and "responses ctx ''tag_description'' = Some d"
  shows "fst (add_tag now ctx s) = Inr (NowExists n) \<and>
         Tag_find_one n (snd (add_tag now ctx s)) =
           Some \<lparr>tag_id = next_id s, name = n, author_id = author ctx, description = d,
                 created_at = now, last_edited_at = None\<rparr> \<and>
         view n (snd (add_tag now ctx s)) = Inr (Content d)"
proof -
  from assms(1) have ne: "\<not> Tag_exists n s"
    by (simp add: Tag_exists_iff)
  then have none: "find (\<lambda>t. name t = n) (docs s) = None"
    by (simp add: Tag_exists_def Tag_find_one_def)
  let ?t = "\<lparr>tag_id = next_id s, name = n, author_id = author ctx, description = d,
            created_at = now, last_edited_at = None\<rparr>"
  let ?s' = "\<lparr>docs = docs s @ [?t], next_id = Suc (next_id s)\<rparr>"
  from ne assms(2,3) Tag_insert_new [OF assms(1), of "author ctx" d now]
  have run: "add_tag now ctx s = (Inr (NowExists n), ?s')"
    by (simp add: add_tag_def)
  have look: "Tag_find_one n ?s' = Some ?t"
    by (simp add: Tag_find_one_def find_append_None [OF none])
  from run look show ?thesis
    by (simp add: view_def)
qed

theorem add_tag_then_find_witness:
  "''c'' \<notin> set (map name (docs store_a_b)) \<and>
   fst (add_tag 7 (form ''c'' ''text'') store_a_b) = Inr (NowExists ''c'') \<and>
   Tag_find_one ''c'' (snd (add_tag 7 (form ''c'' ''text'') store_a_b)) =
     Some \<lparr>tag_id = 2, name = ''c'', author_id = ''42'', description = ''text'',
           created_at = 7, last_edited_at = None\<rparr> \<and>
   view ''c'' (snd (add_tag 7 (form ''c'' ''text'') store_a_b)) = Inr (Content ''text'')"
proof -
  have f: "''c'' \<notin> set (map name (docs store_a_b))"
    by (simp add: store_a_b_eval)
  have a: "author (form ''c'' ''text'') = ''42''" "next_id store_a_b = 2"
    by (simp_all add: form_def store_a_b_eval)
  from f a add_tag_then_find [where s = store_a_b and ctx = "form ''c'' ''text''" and now = 7,
      OF f responses_form] show ?thesis
    by simp
qed

section \<open>Editing a tag\<close>

text \<open>
  What \<^verbatim>\<open>edit_tag\<close> does when the id resolves and the form has both inputs. When no
  document with another id has the submitted name, the first document with the id is
  replaced, in place, by its copy with the new name, the new description and the edit
  time. When a document with another id has the submitted name, the database refuses
  the save.
\<close>

lemma edit_tag_found:
  assumes "Tag_get i s = Some t"
    and "responses ctx ''tag_name'' = Some n"
    and "responses ctx ''tag_description'' = Some d"
    and "\<forall>u \<in> set (docs s). name u = n \<longrightarrow> tag_id u = i"
  shows "\<exists>ys zs. docs s = ys @ t # zs \<and> (\<forall>y \<in> set ys. tag_id y \<noteq> i) \<and> tag_id t = i \<and>
           edit_tag now ctx i s =
             (Inr (if n = name t then Edited n else EditedRenamed (name t) n),
              s\<lparr>docs := ys @ t\<lparr>name := n, description := d, last_edited_at := Some now\<rparr> # zs\<rparr>)"
proof -
  from assms(1) obtain ys zs where sp: "docs s = ys @ t # zs" "tag_id t = i"
      "\<forall>y \<in> set ys. tag_id y \<noteq> i"
    unfolding Tag_get_def by (blast dest: find_split)
  let ?t' = "t\<lparr>name := n, description := d, last_edited_at := Some now\<rparr>"
  have r: "replace_one ?t' (docs s) = ys @ ?t' # zs"
    using sp by (simp add: replace_one_split)
  from assms(4) sp(2) have "\<not> list_ex (\<lambda>u. tag_id u \<noteq> tag_id ?t' \<and> name u = name ?t') (docs s)"
    by (auto simp: list_ex_iff)
  then have "Tag_save ?t' s = Inr (s\<lparr>docs := ys @ ?t' # zs\<rparr>)"
    using r unfolding Tag_save_def by simp
  with assms(1,2,3) have "edit_tag now ctx i s =
             (Inr (if n = name t then Edited n else EditedRenamed (name t) n),
              s\<lparr>docs := ys @ ?t' # zs\<rparr>)"
    by (simp add: edit_tag_def Let_def)
  with sp show ?thesis by blast
qed

lemma edit_tag_refused:
  assumes "Tag_get i s = Some t"
    and "responses ctx ''tag_name'' = Some n"
    and "responses ctx ''tag_description'' = Some d"
    and "\<exists>u \<in> set (docs s). name u = n \<and> tag_id u \<noteq> i"
  shows "edit_tag now ctx i s = (Inl DuplicateKeyError, s)"
proof -
  let ?t' = "t\<lparr>name := n, description := d, last_edited_at := Some now\<rparr>"
  from assms(1) have "tag_id t = i"
    unfolding Tag_get_def by (blast dest: find_SomeD)
  with assms(4) have "list_ex (\<lambda>u. tag_id u \<noteq> tag_id ?t' \<and> name u = name ?t') (docs s)"
    by (auto simp: list_ex_iff)
  then have "Tag_save ?t' s = Inl DuplicateKeyError"
    unfolding Tag_save_def by simp
  with assms(1,2,3) show ?thesis
    by (simp add: edit_tag_def Let_def)
qed

text \<open>
  C4. The claim as it is stated fails: in the store with the tags \<open>a\<close> (id 0) and \<open>b\<close>
  (id 1), the id 1 resolves, and the edit that submits the name \<open>a\<close> for it does not
  succeed: the database refuses the save, the handler ends with the duplicate-key error
  and the store is as it was.
\<close>

theorem edit_tag_resolving_id_refused:
  "1 \<in> set (map tag_id (docs store_a_b)) \<and>
   edit_tag 3 (form ''a'' ''z'') 1 store_a_b = (Inl DuplicateKeyError, store_a_b)"
  by (simp add: store_a_b_eval edit_tag_def Tag_get_def Tag_save_def form_def Let_def)

text \<open>
  C4, amended. When the id \<open>i\<close> resolves to no stored tag, \<^verbatim>\<open>edit_tag\<close> fails with
  \<open>NotFound\<close> and the store is as it was. When \<open>i\<close> resolves and no other stored tag has
  the submitted name, the edit succeeds, and the tag with the id \<open>i\<close> then has
  \<open>last_edited_at\<close> set to the current time. When \<open>i\<close> resolves and another stored tag has
  the submitted name, the database refuses the save and the store is as it was.
\<close>

theorem edit_tag_not_found_or_edited:
  "(i \<notin> set (map tag_id (docs s)) \<longrightarrow> edit_tag now ctx i s = (Inl NotFound, s)) \<and>
   (i \<in> set (map tag_id (docs s)) \<longrightarrow>
      responses ctx ''tag_name'' = Some n \<longrightarrow> responses ctx ''tag_description'' = Some d \<longrightarrow>
      ((\<forall>u \<in> set (docs s). name u = n \<longrightarrow> tag_id u = i) \<longrightarrow>
         (\<exists>r. fst (edit_tag now ctx i s) = Inr r) \<and>
         map_option last_edited_at (Tag_get i (snd (edit_tag now ctx i s))) = Some (Some now)) \<and>
      ((\<exists>u \<in> set (docs s). name u = n \<and> tag_id u \<noteq> i) \<longrightarrow>
         edit_tag now ctx i s = (Inl DuplicateKeyError, s)))"
proof (intro conjI impI)
  assume "i \<notin> set (map tag_id (docs s))"
  then have "Tag_get i s = None" by (simp add: Tag_get_None_iff)
  then show "edit_tag now ctx i s = (Inl NotFound, s)" by (simp add: edit_tag_def)
next
  assume i: "i \<in> set (map tag_id (docs s))"
    and n: "responses ctx ''tag_name'' = Some n"
    and d: "responses ctx ''tag_description'' = Some d"
    and free: "\<forall>u \<in> set (docs s). name u = n \<longrightarrow> tag_id u = i"
  from i obtain t where t: "Tag_get i s = Some t"
    using Tag_get_None_iff [of i s] by (cases "Tag_get i s") auto
  from edit_tag_found [OF t n d free, of now] obtain ys zs where
    e: "\<forall>y \<in> set ys. tag_id y \<noteq> i" "tag_id t = i"
       "edit_tag now ctx i s =
             (Inr (if n = name t then Edited n else EditedRenamed (name t) n),
              s\<lparr>docs := ys @ t\<lparr>name := n, description := d, last_edited_at := Some now\<rparr> # zs\<rparr>)"
    by blast
  from e show "\<exists>r. fst (edit_tag now ctx i s) = Inr r" by simp
  from e show "map_option last_edited_at (Tag_get i (snd (edit_tag now ctx i s))) = Some (Some now)"
    by (simp add: Tag_get_def find_split_mid)
next
  assume i: "i \<in> set (map tag_id (docs s))"
    and n: "responses ctx ''tag_name'' = Some n"
    and d: "responses ctx ''tag_description'' = Some d"
    and taken: "\<exists>u \<in> set (docs s). name u = n \<and> tag_id u \<noteq> i"
  from i obtain t where t: "Tag_get i s = Some t"
    using Tag_get_None_iff [of i s] by (cases "Tag_get i s") auto
  from edit_tag_refused [OF t n d taken] show "edit_tag now ctx i s = (Inl DuplicateKeyError, s)" .
qed

theorem edit_tag_not_found_or_edited_witness:
  "7 \<notin> set (map tag_id (docs store_a_b)) \<and>
   edit_tag 3 (form ''b'' ''z'') 7 store_a_b = (Inl NotFound, store_a_b) \<and>
   1 \<in> set (map tag_id (docs store_a_b)) \<and>
   ''c'' \<notin> set (map name (docs store_a_b)) \<and>
   (\<exists>r. fst (edit_tag 3 (form ''c'' ''z'') 1 store_a_b) = Inr r) \<and>
   map_option last_edited_at (Tag_get 1 (snd (edit_tag 3 (form ''c'' ''z'') 1 store_a_b))) =
     Some (Some 3) \<and>
   map name (docs store_a_b) = [''a'', ''b''] \<and>
   edit_tag 3 (form ''a'' ''z'') 1 store_a_b = (Inl DuplicateKeyError, store_a_b)"
proof -
  have a: "7 \<notin> set (map tag_id (docs store_a_b))"
    by (simp add: store_a_b_eval)
  have b: "1 \<in> set (map tag_id (docs store_a_b))"
    by (simp add: store_a_b_eval)
  have f: "\<forall>u \<in> set (docs store_a_b). name u = ''c'' \<longrightarrow> tag_id u = 1"
    by (simp add: store_a_b_eval)
  have t: "\<exists>u \<in> set (docs store_a_b). name u = ''a'' \<and> tag_id u \<noteq> 1"
    by (simp add: store_a_b_eval)
  from a edit_tag_not_found_or_edited [of 7 store_a_b 3 "form ''b'' ''z''" "''b''" "''z''"]
  have 1: "edit_tag 3 (form ''b'' ''z'') 7 store_a_b = (Inl NotFound, store_a_b)"
    by blast
  from b f responses_form [of "''c''" "''z''"]
    edit_tag_not_found_or_edited [of 1 store_a_b 3 "form ''c'' ''z''" "''c''" "''z''"]
  have 2: "(\<exists>r. fst (edit_tag 3 (form ''c'' ''z'') 1 store_a_b) = Inr r) \<and>
     map_option last_edited_at (Tag_get 1 (snd (edit_tag 3 (form ''c'' ''z'') 1 store_a_b))) =
       Some (Some 3)"
    by blast
  from b t responses_form [of "''a''" "''z''"]
    edit_tag_not_found_or_edited [of 1 store_a_b 3 "form ''a'' ''z''" "''a''" "''z''"]
  have 3: "edit_tag 3 (form ''a'' ''z'') 1 store_a_b = (Inl DuplicateKeyError, store_a_b)"
    by blast
  have c: "''c'' \<notin> set (map name (docs store_a_b))"
    and m: "map name (docs store_a_b) = [''a'', ''b'']"
    by (simp_all add: store_a_b_eval)
  from a b c m 1 2 3 show ?thesis by blast
qed

text \<open>
  C5. A successful edit of the tag \<open>t\<close> with the id \<open>i\<close> changes one document of the
  store, the one of \<open>t\<close>, and nothing else: the documents at all other positions and the
  id counter are as before. The document that replaces \<open>t\<close> has the id, the author and
  the creation time of \<open>t\<close>.
\<close>

theorem edit_tag_frame:
  assumes "Tag_get i s = Some t"
    and "responses ctx ''tag_name'' = Some n"
    and "responses ctx ''tag_description'' = Some d"
  shows "\<exists>k t'. k < length (docs s) \<and> docs s ! k = t \<and>
           docs (snd (edit_tag now ctx i s)) = (docs s)[k := t'] \<and>
           next_id (snd (edit_tag now ctx i s)) = next_id s \<and>
           Tag_get i (snd (edit_tag now ctx i s)) = Some t' \<and>
           tag_id t' = tag_id t \<and> author_id t' = author_id t \<and> created_at t' = created_at t"
proof (cases "\<forall>u \<in> set (docs s). name u = n \<longrightarrow> tag_id u = i")
  case True
  let ?t' = "t\<lparr>name := n, description := d, last_edited_at := Some now\<rparr>"
  from edit_tag_found [OF assms True, of now] obtain ys zs where
    e: "docs s = ys @ t # zs" "\<forall>y \<in> set ys. tag_id y \<noteq> i" "tag_id t = i"
       "edit_tag now ctx i s =
             (Inr (if n = name t then Edited n else EditedRenamed (name t) n),
              s\<lparr>docs := ys @ ?t' # zs\<rparr>)"
    by blast
  have 1: "length ys < length (docs s)" using e(1) by simp
  have 2: "docs s ! length ys = t" using e(1) by simp
  have 3: "docs (snd (edit_tag now ctx i s)) = (docs s)[length ys := ?t']"
    using e(1,4) by simp
  have 4: "next_id (snd (edit_tag now ctx i s)) = next_id s"
    using e(4) by simp
  have 5: "Tag_get i (snd (edit_tag now ctx i s)) = Some ?t'"
    using e(2,3,4) by (simp add: Tag_get_def find_split_mid)
  have 6: "tag_id ?t' = tag_id t \<and> author_id ?t' = author_id t \<and> created_at ?t' = created_at t"
    by simp
  from 1 2 3 4 5 6 show ?thesis by blast
next
  case False
  then have "\<exists>u \<in> set (docs s). name u = n \<and> tag_id u \<noteq> i" by blast
  from edit_tag_refused [OF assms this, of now]
  have same: "snd (edit_tag now ctx i s) = s" by simp
  from assms(1) obtain ys zs where sp: "docs s = ys @ t # zs"
    unfolding Tag_get_def by (blast dest: find_split)
  have 1: "length ys < length (docs s)" using sp by simp
  have 2: "docs s ! length ys = t" using sp by simp
  have 3: "docs (snd (edit_tag now ctx i s)) = (docs s)[length ys := t]"
    using sp same by simp
  from 1 2 3 same assms(1) show ?thesis by auto
qed

theorem edit_tag_frame_witness:
  "Tag_get 1 store_a_b =
     Some \<lparr>tag_id = 1, name = ''b'', author_id = ''42'', description = ''y'',
           created_at = 2, last_edited_at = None\<rparr> \<and>
   (\<exists>k t'. k < length (docs store_a_b) \<and>
      docs (snd (edit_tag 3 (form ''c'' ''z'') 1 store_a_b)) = (docs store_a_b)[k := t'] \<and>
      next_id (snd (edit_tag 3 (form ''c'' ''z'') 1 store_a_b)) = 2 \<and>
      Tag_get 1 (snd (edit_tag 3 (form ''c'' ''z'') 1 store_a_b)) = Some t' \<and>
      tag_id t' = 1 \<and> author_id t' = ''42'' \<and> created_at t' = 2)"
proof -
  let ?b = "\<lparr>tag_id = 1, name = ''b'', author_id = ''42'', description = ''y'',
            created_at = 2, last_edited_at = None\<rparr>"
  have g: "Tag_get 1 store_a_b = Some ?b"
    by (simp add: Tag_get_def store_a_b_eval)
  have c: "next_id store_a_b = 2"
    by (simp add: store_a_b_eval)
  from edit_tag_frame [where ctx = "form ''c'' ''z''" and now = 3, OF g responses_form] c
  have "\<exists>k t'. k < length (docs store_a_b) \<and>
      docs (snd (edit_tag 3 (form ''c'' ''z'') 1 store_a_b)) = (docs store_a_b)[k := t'] \<and>
      next_id (snd (edit_tag 3 (form ''c'' ''z'') 1 store_a_b)) = 2 \<and>
      Tag_get 1 (snd (edit_tag 3 (form ''c'' ''z'') 1 store_a_b)) = Some t' \<and>
      tag_id t' = 1 \<and> author_id t' = ''42'' \<and> created_at t' = 2"
    by auto
  with g show ?thesis by blast
qed

text \<open>
  C10. A successful edit overwrites both fields: after the edit of an existing tag with
  the submitted name \<open>n\<close> and description \<open>d\<close>, where no other stored tag has the name
  \<open>n\<close>, the edit has succeeded, the name of the tag is \<open>n\<close> and its description is \<open>d\<close>,
  whatever they were before; the reply tells whether the name is the old one.
\<close>

theorem edit_tag_overwrites:
  assumes "Tag_get i s = Some t"
    and "responses ctx ''tag_name'' = Some n"
    and "responses ctx ''tag_description'' = Some d"
    and "\<forall>u \<in> set (docs s). name u = n \<longrightarrow> tag_id u = i"
  shows "fst (edit_tag now ctx i s) =
           Inr (if n = name t then Edited n else EditedRenamed (name t) n) \<and>
         map_option name (Tag_get i (snd (edit_tag now ctx i s))) = Some n \<and>
         map_option description (Tag_get i (snd (edit_tag now ctx i s))) = Some d"
proof -
  from edit_tag_found [OF assms, of now] obtain ys zs where
    e: "\<forall>y \<in> set ys. tag_id y \<noteq> i" "tag_id t = i"
       "edit_tag now ctx i s =
             (Inr (if n = name t then Edited n else EditedRenamed (name t) n),
              s\<lparr>docs := ys @ t\<lparr>name := n, description := d, last_edited_at := Some now\<rparr> # zs\<rparr>)"
    by blast
  then show ?thesis
    by (simp add: Tag_get_def find_split_mid)
qed

theorem edit_tag_overwrites_witness:
  "Tag_get 1 store_a_b =
     Some \<lparr>tag_id = 1, name = ''b'', author_id = ''42'', description = ''y'',
           created_at = 2, last_edited_at = None\<rparr> \<and>
   map name (docs store_a_b) = [''a'', ''b''] \<and>
   fst (edit_tag 3 (form ''b'' ''y'') 1 store_a_b) = Inr (Edited ''b'') \<and>
   map_option name (Tag_get 1 (snd (edit_tag 3 (form ''b'' ''y'') 1 store_a_b))) = Some ''b'' \<and>
   map_option description (Tag_get 1 (snd (edit_tag 3 (form ''b'' ''y'') 1 store_a_b))) =
     Some ''y''"
proof -
  let ?b = "\<lparr>tag_id = 1, name = ''b'', author_id = ''42'', description = ''y'',
            created_at = 2, last_edited_at = None\<rparr>"
  have g: "Tag_get 1 store_a_b = Some ?b"
    by (simp add: Tag_get_def store_a_b_eval)
  have f: "\<forall>u \<in> set (docs store_a_b). name u = ''b'' \<longrightarrow> tag_id u = 1"
    by (simp add: store_a_b_eval)
  have m: "map name (docs store_a_b) = [''a'', ''b'']"
    by (simp add: store_a_b_eval)
  from g m edit_tag_overwrites [where ctx = "form ''b'' ''y''" and now = 3,
      OF g responses_form f]
  show ?thesis
    by simp
qed

section \<open>Deleting a tag\<close>

text \<open>
  What \<^verbatim>\<open>delete\<close> does when the name is found, in a store whose object ids are
  distinct: the first document with that name is taken out.
\<close>

lemma delete_found:
  assumes "distinct (map tag_id (docs s))" and "Tag_find_one n s = Some t"
  shows "\<exists>ys zs. docs s = ys @ t # zs \<and> name t = n \<and> (\<forall>y \<in> set ys. name y \<noteq> n) \<and>
           delete n s = (Inr (Deleted n), s\<lparr>docs := ys @ zs\<rparr>)"
proof -
  from assms(2) obtain ys zs where sp: "docs s = ys @ t # zs" "name t = n"
      "\<forall>y \<in> set ys. name y \<noteq> n"
    unfolding Tag_find_one_def by (blast dest: find_split)
  from assms(1) sp(1) have "tag_id t \<notin> tag_id ` set ys"
    by simp
  then have "\<forall>y \<in> set ys. tag_id y \<noteq> tag_id t"
    by (metis imageI)
  then have "delete_one (tag_id t) (docs s) = ys @ zs"
    using sp(1) by (simp add: delete_one_split)
  with assms(2) have "delete n s = (Inr (Deleted n), s\<lparr>docs := ys @ zs\<rparr>)"
    by (simp add: delete_def Tag_delete_def)
  with sp show ?thesis by blast
qed

text \<open>
  C7. In a store whose object ids are distinct (as they are in every store the handlers
  produce, see \<open>ids_fresh_add_tag\<close>, \<open>ids_fresh_edit_tag\<close> and \<open>ids_fresh_delete\<close>):
  deleting a name that no stored tag has raises the error ``does not exist'', which is
  the NotFound of the spec, and leaves the store as it was; deleting a name that a stored
  tag has reports success and removes one document with that name, all others staying
  in their order.
\<close>

theorem delete_reports_removal:
  assumes "distinct (map tag_id (docs s))"
  shows "(n \<notin> set (map name (docs s)) \<longrightarrow>
            delete n s = (Inl (BadArgument n), s) \<and> is_not_found (BadArgument n)) \<and>
         (n \<in> set (map name (docs s)) \<longrightarrow>
            fst (delete n s) = Inr (Deleted n) \<and>
            (\<exists>ys t zs. docs s = ys @ t # zs \<and> name t = n \<and>
               snd (delete n s) = s\<lparr>docs := ys @ zs\<rparr>))"
proof (intro conjI impI)
  assume "n \<notin> set (map name (docs s))"
  then have "Tag_find_one n s = None" by (simp add: Tag_find_one_None_iff)
  then show "delete n s = (Inl (BadArgument n), s)" by (simp add: delete_def)
  show "is_not_found (BadArgument n)" by simp
next
  assume "n \<in> set (map name (docs s))"
  then obtain t where t: "Tag_find_one n s = Some t"
    using Tag_find_one_None_iff [of n s] by (cases "Tag_find_one n s") auto
  from delete_found [OF assms t] obtain ys zs where
    e: "docs s = ys @ t # zs" "name t = n" "delete n s = (Inr (Deleted n), s\<lparr>docs := ys @ zs\<rparr>)"
    by blast
  from e(3) show "fst (delete n s) = Inr (Deleted n)" by simp
  from e have "docs s = ys @ t # zs \<and> name t = n \<and> snd (delete n s) = s\<lparr>docs := ys @ zs\<rparr>"
    by simp
  then show "\<exists>ys t zs. docs s = ys @ t # zs \<and> name t = n \<and> snd (delete n s) = s\<lparr>docs := ys @ zs\<rparr>"
    by blast
qed

theorem delete_reports_removal_witness:
  "distinct (map tag_id (docs store_a_b)) \<and>
   ''c'' \<notin> set (map name (docs store_a_b)) \<and>
   delete ''c'' store_a_b = (Inl (BadArgument ''c''), store_a_b) \<and>
   ''a'' \<in> set (map name (docs store_a_b)) \<and>
   fst (delete ''a'' store_a_b) = Inr (Deleted ''a'') \<and>
   (\<exists>ys t zs. docs store_a_b = ys @ t # zs \<and> name t = ''a'' \<and>
      snd (delete ''a'' store_a_b) = store_a_b\<lparr>docs := ys @ zs\<rparr>)"
proof -
  have w: "distinct (map tag_id (docs store_a_b))"
    by (simp add: store_a_b_eval)
  have c: "''c'' \<notin> set (map name (docs store_a_b))"
    by (simp add: store_a_b_eval)
  have a: "''a'' \<in> set (map name (docs store_a_b))"
    by (simp add: store_a_b_eval)
  from c delete_reports_removal [OF w, of "''c''"]
  have 1: "delete ''c'' store_a_b = (Inl (BadArgument ''c''), store_a_b)"
    by blast
  from a delete_reports_removal [OF w, of "''a''"]
  have 2: "fst (delete ''a'' store_a_b) = Inr (Deleted ''a'') \<and>
     (\<exists>ys t zs. docs store_a_b = ys @ t # zs \<and> name t = ''a'' \<and>
        snd (delete ''a'' store_a_b) = store_a_b\<lparr>docs := ys @ zs\<rparr>)"
    by blast
  from w c a 1 2 show ?thesis by blast
qed

section \<open>The invariants of the store\<close>

text \<open>
  An edit either leaves the store as it was, or replaces one document, in place, by a
  copy with the same object id whose name no document with another id has.
\<close>

lemma edit_tag_cases:
  "snd (edit_tag now ctx i s) = s \<or>
   (\<exists>t n d ys zs. docs s = ys @ t # zs \<and> tag_id t = i \<and>
      (\<forall>u \<in> set (docs s). name u = n \<longrightarrow> tag_id u = i) \<and>
      snd (edit_tag now ctx i s) =
        s\<lparr>docs := ys @ t\<lparr>name := n, description := d, last_edited_at := Some now\<rparr> # zs\<rparr>)"
proof (cases "Tag_get i s")
  case None
  then show ?thesis by (simp add: edit_tag_def)
next
  case (Some t)
  show ?thesis
  proof (cases "responses ctx ''tag_name''")
    case None
    with Some show ?thesis by (simp add: edit_tag_def)
  next
    case n: (Some n)
    show ?thesis
    proof (cases "responses ctx ''tag_description''")
      case None
      with Some n show ?thesis by (simp add: edit_tag_def)
    next
      case d: (Some d)
      show ?thesis
      proof (cases "\<forall>u \<in> set (docs s). name u = n \<longrightarrow> tag_id u = i")
        case True
        from edit_tag_found [OF Some n d True, of now] obtain ys zs where
          "docs s = ys @ t # zs" "tag_id t = i"
          "snd (edit_tag now ctx i s) =
             s\<lparr>docs := ys @ t\<lparr>name := n, description := d, last_edited_at := Some now\<rparr> # zs\<rparr>"
          by auto
        with True show ?thesis by blast
      next
        case False
        then have "\<exists>u \<in> set (docs s). name u = n \<and> tag_id u \<noteq> i" by blast
        from edit_tag_refused [OF Some n d this, of now] show ?thesis by simp
      qed
    qed
  qed
qed

lemma add_tag_cases:
  "snd (add_tag now ctx s) = s \<or>
   (\<exists>n a d. n \<notin> set (map name (docs s)) \<and>
      snd (add_tag now ctx s) =
        \<lparr>docs = docs s @ [\<lparr>tag_id = next_id s, name = n, author_id = a, description = d,
                            created_at = now, last_edited_at = None\<rparr>],
         next_id = Suc (next_id s)\<rparr>)"
  by (auto simp: add_tag_def Tag_insert_def list_ex_iff split: option.splits)

lemma set_delete_one: "set (delete_one i xs) \<subseteq> set xs"
  by (induction xs) auto

lemma distinct_map_delete_one: "distinct (map f xs) \<Longrightarrow> distinct (map f (delete_one i xs))"
proof (induction xs)
  case Nil
  then show ?case by simp
next
  case (Cons x xs)
  from set_delete_one [of i xs] have "f ` set (delete_one i xs) \<subseteq> f ` set xs"
    by blast
  with Cons show ?case by auto
qed

lemma delete_cases:
  "snd (delete n s) = s \<or> (\<exists>i. snd (delete n s) = s\<lparr>docs := delete_one i (docs s)\<rparr>)"
  by (auto simp: delete_def Tag_delete_def split: option.splits)

text \<open>The object ids stay distinct and below the id counter.\<close>

lemma ids_fresh_empty: "ids_fresh empty_store"
  by (simp add: ids_fresh_def empty_store_def)

lemma ids_fresh_add_tag:
  assumes "ids_fresh s"
  shows "ids_fresh (snd (add_tag now ctx s))"
proof -
  from add_tag_cases [of now ctx s] consider "snd (add_tag now ctx s) = s"
    | n a d where "snd (add_tag now ctx s) =
        \<lparr>docs = docs s @ [\<lparr>tag_id = next_id s, name = n, author_id = a, description = d,
                            created_at = now, last_edited_at = None\<rparr>],
         next_id = Suc (next_id s)\<rparr>"
    by blast
  then show ?thesis
  proof cases
    case 1
    with assms show ?thesis by simp
  next
    case 2
    from assms have below: "\<forall>t \<in> set (docs s). tag_id t < next_id s"
      and dist: "distinct (map tag_id (docs s))"
      by (simp_all add: ids_fresh_def list_all_iff)
    from below have "next_id s \<notin> tag_id ` set (docs s)"
      by (metis imageE less_irrefl)
    with below dist 2 show ?thesis
      by (simp add: ids_fresh_def list_all_iff less_Suc_eq)
  qed
qed

lemma ids_fresh_edit_tag:
  assumes "ids_fresh s"
  shows "ids_fresh (snd (edit_tag now ctx i s))"
  using edit_tag_cases [of now ctx i s] assms
  by (auto simp: ids_fresh_def)

lemma ids_fresh_delete:
  assumes "ids_fresh s"
  shows "ids_fresh (snd (delete n s))"
proof -
  from delete_cases [of n s] consider "snd (delete n s) = s"
    | i where "snd (delete n s) = s\<lparr>docs := delete_one i (docs s)\<rparr>"
    by blast
  then show ?thesis
  proof cases
    case 1
    with assms show ?thesis by simp
  next
    case 2
    from assms have "distinct (map tag_id (delete_one i (docs s)))"
      by (simp add: ids_fresh_def distinct_map_delete_one)
    moreover from assms set_delete_one [of i "docs s"]
    have "list_all (\<lambda>t. tag_id t < next_id s) (delete_one i (docs s))"
      by (auto simp: ids_fresh_def list_all_iff)
    ultimately show ?thesis using 2 by (simp add: ids_fresh_def)
  qed
qed

text \<open>The names stay unique.\<close>

lemma names_unique_empty: "names_unique empty_store"
  by (simp add: names_unique_def empty_store_def)

lemma names_unique_add_tag:
  assumes "names_unique s"
  shows "names_unique (snd (add_tag now ctx s))"
  using add_tag_cases [of now ctx s] assms
  by (auto simp: names_unique_def)

lemma names_unique_delete:
  assumes "names_unique s"
  shows "names_unique (snd (delete n s))"
  using delete_cases [of n s] assms
  by (auto simp: names_unique_def distinct_map_delete_one)

lemma names_unique_edit_tag:
  assumes "names_unique s" and "distinct (map tag_id (docs s))"
  shows "names_unique (snd (edit_tag now ctx i s))"
proof -
  from edit_tag_cases [of now ctx i s] consider "snd (edit_tag now ctx i s) = s"
    | t n d ys zs where "docs s = ys @ t # zs" "tag_id t = i"
        "\<forall>u \<in> set (docs s). name u = n \<longrightarrow> tag_id u = i"
        "snd (edit_tag now ctx i s) =
           s\<lparr>docs := ys @ t\<lparr>name := n, description := d, last_edited_at := Some now\<rparr> # zs\<rparr>"
    by blast
  then show ?thesis
  proof cases
    case 1
    with assms(1) show ?thesis by simp
  next
    case 2
    from assms(2) 2(1,2) have "i \<notin> tag_id ` set ys" "i \<notin> tag_id ` set zs"
      by auto
    moreover from 2(1,3) have "\<forall>u \<in> set ys \<union> set zs. name u = n \<longrightarrow> tag_id u = i"
      by simp
    ultimately have "n \<notin> name ` set ys" "n \<notin> name ` set zs"
      by blast+
    with assms(1) 2(1) have "distinct (map name ys @ n # map name zs)"
      by (auto simp: names_unique_def)
    with 2(4) show ?thesis by (simp add: names_unique_def)
  qed
qed

lemma reachable_invariants: "reachable s \<Longrightarrow> ids_fresh s \<and> names_unique s"
proof (induction rule: reachable.induct)
  case init
  show ?case by (simp add: ids_fresh_empty names_unique_empty)
next
  case (created s now ctx)
  then show ?case by (simp add: ids_fresh_add_tag names_unique_add_tag)
next
  case (edited s now ctx i)
  then have f: "ids_fresh s" and u: "names_unique s" by simp_all
  from f have d: "distinct (map tag_id (docs s))" by (simp add: ids_fresh_def)
  from ids_fresh_edit_tag [OF f] names_unique_edit_tag [OF u d] show ?case by simp
next
  case (deleted s n)
  then show ?case by (simp add: ids_fresh_delete names_unique_delete)
qed

lemma reachable_store_a_b: "reachable store_a_b"
  unfolding store_a_b_def by (intro reachable.created reachable.init)

text \<open>
  C2. No two stored tags have the same name in any store the handlers can produce, and
  each of creating, editing (a rename included) and deleting maps a store with unique
  names (and distinct object ids, as every store has them) to a store with unique names.
  \<^verbatim>\<open>add_tag\<close> refuses an existing name itself; \<^verbatim>\<open>edit_tag\<close> has no check of its own and
  relies on the database, which refuses the save of a name that another tag has.
\<close>

theorem names_unique_preserved:
  "(reachable s \<longrightarrow> names_unique s) \<and>
   (names_unique s \<longrightarrow> distinct (map tag_id (docs s)) \<longrightarrow>
      names_unique (snd (add_tag now ctx s)) \<and>
      names_unique (snd (edit_tag now ctx i s)) \<and>
      names_unique (snd (delete n s)))"
  by (simp add: reachable_invariants names_unique_add_tag names_unique_edit_tag
      names_unique_delete)

theorem names_unique_preserved_witness:
  "reachable store_a_b \<and> names_unique store_a_b \<and>
   distinct (map tag_id (docs store_a_b)) \<and>
   names_unique (snd (add_tag 3 (form ''a'' ''z'') store_a_b)) \<and>
   names_unique (snd (edit_tag 3 (form ''a'' ''z'') 1 store_a_b)) \<and>
   map name (docs (snd (edit_tag 3 (form ''a'' ''z'') 1 store_a_b))) = [''a'', ''b''] \<and>
   map name (docs (snd (edit_tag 3 (form ''c'' ''z'') 1 store_a_b))) = [''a'', ''c''] \<and>
   names_unique (snd (delete ''a'' store_a_b))"
proof -
  note p = names_unique_preserved [of store_a_b 3 "form ''a'' ''z''" 1 "''a''"]
  have d: "distinct (map tag_id (docs store_a_b))"
    by (simp add: store_a_b_eval)
  from p reachable_store_a_b have u: "names_unique store_a_b"
    by blast
  from p u d have 1: "names_unique (snd (add_tag 3 (form ''a'' ''z'') store_a_b)) \<and>
      names_unique (snd (edit_tag 3 (form ''a'' ''z'') 1 store_a_b)) \<and>
      names_unique (snd (delete ''a'' store_a_b))"
    by blast
  have 2: "map name (docs (snd (edit_tag 3 (form ''a'' ''z'') 1 store_a_b))) = [''a'', ''b'']"
    by (simp add: store_a_b_eval edit_tag_def Tag_get_def Tag_save_def form_def Let_def)
  have 3: "map name (docs (snd (edit_tag 3 (form ''c'' ''z'') 1 store_a_b))) = [''a'', ''c'']"
    by (simp add: store_a_b_eval edit_tag_def Tag_get_def Tag_save_def form_def Let_def)
  from reachable_store_a_b u d 1 2 3 show ?thesis by blast
qed

text \<open>
  C6. In a store with unique names and distinct object ids, as every store the handlers
  can produce is (\<open>reachable_invariants\<close>), deleting the name of a stored tag succeeds,
  and the lookup of that name by exact name then returns nothing: \<^verbatim>\<open>view\<close> raises
  ``does not exist''.
\<close>

theorem delete_then_find_nothing:
  assumes "names_unique s" and "distinct (map tag_id (docs s))"
    and "n \<in> set (map name (docs s))"
  shows "fst (delete n s) = Inr (Deleted n) \<and>
         Tag_find_one n (snd (delete n s)) = None \<and>
         view n (snd (delete n s)) = Inl (BadArgument n)"
proof -
  from assms(3) obtain t where t: "Tag_find_one n s = Some t"
    using Tag_find_one_None_iff [of n s] by (cases "Tag_find_one n s") auto
  from delete_found [OF assms(2) t] obtain ys zs where
    e: "docs s = ys @ t # zs" "name t = n"
       "delete n s = (Inr (Deleted n), s\<lparr>docs := ys @ zs\<rparr>)"
    by blast
  from assms(1) e(1,2) have "n \<notin> set (map name (ys @ zs))"
    by (auto simp: names_unique_def)
  with e(3) have none: "Tag_find_one n (snd (delete n s)) = None"
    by (simp add: Tag_find_one_None_iff)
  from e(3) none show ?thesis
    by (simp add: view_def)
qed

theorem delete_then_find_nothing_witness:
  "names_unique store_a_b \<and> distinct (map tag_id (docs store_a_b)) \<and>
   ''a'' \<in> set (map name (docs store_a_b)) \<and>
   fst (delete ''a'' store_a_b) = Inr (Deleted ''a'') \<and>
   Tag_find_one ''a'' (snd (delete ''a'' store_a_b)) = None \<and>
   view ''a'' (snd (delete ''a'' store_a_b)) = Inl (BadArgument ''a'')"
proof -
  have u: "names_unique store_a_b"
    by (simp add: names_unique_def store_a_b_eval)
  have d: "distinct (map tag_id (docs store_a_b))"
    by (simp add: store_a_b_eval)
  have a: "''a'' \<in> set (map name (docs store_a_b))"
    by (simp add: store_a_b_eval)
  from u d a delete_then_find_nothing [OF u d a] show ?thesis
    by blast
qed

section \<open>Autocomplete\<close>







section \<open>Listing the tags\<close>






















end
